theory Spec2Isabelle
  imports Complex_Main
begin

section \<open>Python values\<close>

text \<open>
  The pipeline passes around what \<^verbatim>\<open>json.loads\<close> produces: \<^verbatim>\<open>None\<close>, booleans,
  unbounded integers, floats, strings, lists and dictionaries with string keys. A
  dictionary is an association list, because its insertion order is what later fixes the
  column order of the table. Strings are modelled over ASCII. Values that JSON cannot
  hold (tuples, sets, objects of other classes) are not part of the model.

  A float is an IEEE binary64 value. A finite one is denoted by the rational number it
  stands for (the sign of zero is not kept); every operation that produces a float rounds
  to binary64 explicitly, see \<open>round_double\<close>.
\<close>

datatype pyfloat = FFin rat | FInf | FNegInf | FNaN

datatype pyval =
    PNone
  | PBool bool
  | PInt int
  | PFloat pyfloat
  | PStr string
  | PList "pyval list"
  | PDict "(string \<times> pyval) list"

type_synonym pydict = "(string \<times> pyval) list"

datatype pyerr = TypeError | ValueError | OverflowError

subsection \<open>Dictionaries\<close>

text \<open>\<^verbatim>\<open>d.get(k, default)\<close>\<close>

definition dict_get :: "pydict \<Rightarrow> string \<Rightarrow> pyval \<Rightarrow> pyval" where
  "dict_get d k dflt = (case map_of d k of None \<Rightarrow> dflt | Some v \<Rightarrow> v)"

text \<open>\<^verbatim>\<open>d[k] = v\<close>: an existing key keeps its position, a new key goes last.\<close>

fun dict_set :: "pydict \<Rightarrow> string \<Rightarrow> pyval \<Rightarrow> pydict" where
  "dict_set [] k v = [(k, v)]"
| "dict_set ((k', v') # d) k v =
     (if k' = k then (k, v) # d else (k', v') # dict_set d k v)"

subsection \<open>Strings\<close>

text \<open>The ASCII characters \<^verbatim>\<open>str.strip()\<close> removes: tab, line feed, vertical tab, form
  feed, carriage return, the four separators 0x1C to 0x1F, and the space.\<close>

definition str_space :: "char \<Rightarrow> bool" where
  "str_space c \<longleftrightarrow> c \<in> set [CHR 0x09, CHR 0x0A, CHR 0x0B, CHR 0x0C, CHR 0x0D,
                              CHR 0x1C, CHR 0x1D, CHR 0x1E, CHR 0x1F, CHR 0x20]"

definition strip :: "string \<Rightarrow> string" where
  "strip s = rev (dropWhile str_space (rev (dropWhile str_space s)))"

definition lower_char :: "char \<Rightarrow> char" where
  "lower_char c =
     (case map_of (zip ''ABCDEFGHIJKLMNOPQRSTUVWXYZ'' ''abcdefghijklmnopqrstuvwxyz'') c of
        None \<Rightarrow> c | Some l \<Rightarrow> l)"

definition lower :: "string \<Rightarrow> string" where
  "lower s = map lower_char s"

subsection \<open>Floats\<close>

definition pow2 :: "int \<Rightarrow> rat" where
  "pow2 e = (if 0 \<le> e then 2 ^ nat e else 1 / 2 ^ nat (- e))"

definition pow10 :: "int \<Rightarrow> rat" where
  "pow10 e = (if 0 \<le> e then 10 ^ nat e else 1 / 10 ^ nat (- e))"

text \<open>\<^verbatim>\<open>int.bit_length()\<close>\<close>

function bit_length :: "int \<Rightarrow> nat" where
  "bit_length n = (if n \<le> 0 then 0 else Suc (bit_length (n div 2)))"
  by pat_completeness auto
termination
  by (relation "measure nat") auto

declare bit_length.simps [simp del]

text \<open>For \<open>0 < q\<close>, the integer \<open>e\<close> with \<open>2 ^ e \<le> q < 2 ^ (e + 1)\<close>: the binary
  exponent of \<open>q\<close>.\<close>

definition floor_log2 :: "rat \<Rightarrow> int" where
  "floor_log2 q =
     (if 1 \<le> q then int (bit_length \<lfloor>q\<rfloor>) - 1
      else - int (bit_length (\<lceil>1 / q\<rceil> - 1)))"

definition round_half_even :: "rat \<Rightarrow> int" where
  "round_half_even q =
     (let f = \<lfloor>q\<rfloor>; d = q - of_int f
      in if d < 1 / 2 then f
         else if 1 / 2 < d then f + 1
         else if even f then f else f + 1)"

text \<open>
  Rounding a rational to binary64, to nearest with ties to even: 53 significant bits,
  the least exponent -1022 (below it the subnormal numbers, spaced 2 ^ -1074 apart),
  and infinity from 2 ^ 1024 on.
\<close>

definition round_double :: "rat \<Rightarrow> pyfloat" where
  "round_double q =
     (if q = 0 then FFin 0
      else let a = \<bar>q\<bar>;
               e = max (floor_log2 a) (- 1022);
               ulp = pow2 (e - 52);
               r = of_int (round_half_even (a / ulp)) * ulp
           in if pow2 1024 \<le> r then (if q < 0 then FNegInf else FInf)
              else FFin (if q < 0 then - r else r))"

text \<open>Float addition.\<close>

fun fadd :: "pyfloat \<Rightarrow> pyfloat \<Rightarrow> pyfloat" where
  "fadd (FFin a) (FFin b) = round_double (a + b)"
| "fadd FNaN _ = FNaN"
| "fadd _ FNaN = FNaN"
| "fadd FInf FNegInf = FNaN"
| "fadd FNegInf FInf = FNaN"
| "fadd FInf _ = FInf"
| "fadd _ FInf = FInf"
| "fadd FNegInf _ = FNegInf"
| "fadd _ FNegInf = FNegInf"

text \<open>\<^verbatim>\<open>float(n)\<close> for an integer: the nearest float, and \<^verbatim>\<open>OverflowError\<close> (int too
  large to convert to float) when that is not finite.\<close>

definition float_of_int :: "int \<Rightarrow> pyerr + pyfloat" where
  "float_of_int n =
     (case round_double (of_int n) of
        FFin r \<Rightarrow> Inr (FFin r)
      | _ \<Rightarrow> Inl OverflowError)"

text \<open>
  \<^verbatim>\<open>float(s)\<close> for a string. Underscores are checked and removed first (one may stand
  only between two digits); then the blanks \<^verbatim>\<open>float\<close> skips on both sides (tab, line
  feed, vertical tab, form feed, carriage return, space); then an optional sign and
  either \<^verbatim>\<open>inf\<close>, \<^verbatim>\<open>infinity\<close> or \<^verbatim>\<open>nan\<close> in any case, or digits with an optional
  point and an optional exponent. Anything else is \<^verbatim>\<open>ValueError\<close>. A number too large
  reads as infinity; no string raises \<^verbatim>\<open>OverflowError\<close>.
\<close>

definition is_digit :: "char \<Rightarrow> bool" where
  "is_digit c \<longleftrightarrow> c \<in> set ''0123456789''"

definition digit_val :: "char \<Rightarrow> int" where
  "digit_val c =
     (case map_of (zip ''0123456789'' [0, 1, 2, 3, 4, 5, 6, 7, 8, 9]) c of
        None \<Rightarrow> 0 | Some d \<Rightarrow> d)"

definition digits_val :: "string \<Rightarrow> int" where
  "digits_val ds = foldl (\<lambda>acc c. 10 * acc + digit_val c) 0 ds"

fun remove_underscores :: "char \<Rightarrow> string \<Rightarrow> string option" where
  "remove_underscores prev [] = (if prev = CHR ''_'' then None else Some [])"
| "remove_underscores prev (c # cs) =
     (if c = CHR ''_''
      then (if is_digit prev then remove_underscores c cs else None)
      else if prev = CHR ''_'' \<and> \<not> is_digit c then None
      else map_option ((#) c) (remove_underscores c cs))"

definition float_space :: "char \<Rightarrow> bool" where
  "float_space c \<longleftrightarrow> c \<in> set [CHR 0x09, CHR 0x0A, CHR 0x0B, CHR 0x0C, CHR 0x0D, CHR 0x20]"

definition float_strip :: "string \<Rightarrow> string" where
  "float_strip s = rev (dropWhile float_space (rev (dropWhile float_space s)))"

definition split_sign :: "string \<Rightarrow> bool \<times> string" where
  "split_sign s =
     (case s of
        [] \<Rightarrow> (False, [])
      | c # cs \<Rightarrow>
          if c = CHR ''-'' then (True, cs)
          else if c = CHR ''+'' then (False, cs)
          else (False, s))"

definition parse_exponent :: "string \<Rightarrow> int option" where
  "parse_exponent s =
     (case s of
        [] \<Rightarrow> Some 0
      | c # cs \<Rightarrow>
          if c = CHR ''e'' \<or> c = CHR ''E''
          then (case split_sign cs of
                  (neg, ds) \<Rightarrow>
                    if ds \<noteq> [] \<and> list_all is_digit ds
                    then Some (if neg then - digits_val ds else digits_val ds)
                    else None)
          else None)"

definition parse_decimal :: "string \<Rightarrow> rat option" where
  "parse_decimal s =
     (let ip = takeWhile is_digit s;
          r1 = dropWhile is_digit s;
          fp = (case r1 of [] \<Rightarrow> [] | c # cs \<Rightarrow> if c = CHR ''.'' then takeWhile is_digit cs else []);
          r2 = (case r1 of [] \<Rightarrow> [] | c # cs \<Rightarrow> if c = CHR ''.'' then dropWhile is_digit cs else r1)
      in if ip = [] \<and> fp = [] then None
         else (case parse_exponent r2 of
                 None \<Rightarrow> None
               | Some e \<Rightarrow> Some (of_int (digits_val (ip @ fp)) * pow10 (e - int (length fp)))))"

definition float_of_str :: "string \<Rightarrow> pyerr + pyfloat" where
  "float_of_str s =
     (case remove_underscores (CHR 0x00) s of
        None \<Rightarrow> Inl ValueError
      | Some t \<Rightarrow>
          (case split_sign (float_strip t) of
             (neg, body) \<Rightarrow>
               if lower body = ''inf'' \<or> lower body = ''infinity''
               then Inr (if neg then FNegInf else FInf)
               else if lower body = ''nan'' then Inr FNaN
               else (case parse_decimal body of
                       None \<Rightarrow> Inl ValueError
                     | Some q \<Rightarrow> Inr (round_double (if neg then - q else q)))))"

text \<open>The builtin \<^verbatim>\<open>float(value)\<close>; \<^verbatim>\<open>bool\<close> is a subclass of \<^verbatim>\<open>int\<close>.\<close>

fun py_float :: "pyval \<Rightarrow> pyerr + pyfloat" where
  "py_float (PFloat f) = Inr f"
| "py_float (PInt n) = float_of_int n"
| "py_float (PBool b) = Inr (FFin (if b then 1 else 0))"
| "py_float (PStr s) = float_of_str s"
| "py_float PNone = Inl TypeError"
| "py_float (PList xs) = Inl TypeError"
| "py_float (PDict d) = Inl TypeError"

text \<open>\<^verbatim>\<open>sum\<close> over floats: the start value is the integer 0, which an empty sequence
  returns as it is; otherwise the floats are added from the left. (Newer interpreters
  compensate the rounding errors of the partial sums; no property below depends on how
  the sum is rounded.)\<close>

fun py_sum :: "pyfloat list \<Rightarrow> pyval" where
  "py_sum [] = PInt 0"
| "py_sum (f # fs) = PFloat (foldl fadd (fadd (FFin 0) f) fs)"

subsection \<open>The builtin \<^verbatim>\<open>str\<close>\<close>

definition digit_char :: "int \<Rightarrow> char" where
  "digit_char d = ''0123456789'' ! nat d"

function nat_digits :: "int \<Rightarrow> string" where
  "nat_digits n = (if n < 10 then [digit_char n] else nat_digits (n div 10) @ [digit_char (n mod 10)])"
  by pat_completeness auto
termination
  by (relation "measure nat") auto

declare nat_digits.simps [simp del]

definition int_str :: "int \<Rightarrow> string" where
  "int_str n = (if n < 0 then CHR ''-'' # nat_digits (- n) else nat_digits n)"

text \<open>
  \<^verbatim>\<open>str(value)\<close>. A string is returned as it is. The text of a float, a list or a
  dictionary is left to the parameter \<open>repr\<close>: no property below depends on it. An
  integer is written in decimal, whatever its length (the limit some interpreters put on
  the number of digits is not modelled).
\<close>

fun py_str :: "(pyval \<Rightarrow> string) \<Rightarrow> pyval \<Rightarrow> string" where
  "py_str repr (PStr s) = s"
| "py_str repr PNone = ''None''"
| "py_str repr (PBool b) = (if b then ''True'' else ''False'')"
| "py_str repr (PInt n) = int_str n"
| "py_str repr v = repr v"

section \<open>The field extractor (pipeline/extractor.py)\<close>

text \<open>
  What the outside world does with the one request \<open>ai_extract\<close> sends:
  \<^verbatim>\<open>requests.post\<close> raises because the service cannot be reached, or raises because
  the call timed out; or the service answers. When it answers with a success status,
  \<^verbatim>\<open>response.json()\<close> raises because the body is not JSON (\<open>BodyNotJson\<close>) or
  decodes the body to a value (\<open>JsonBody\<close>). When it answers with an error status (any
  status outside 200 to 299), the reply is \<open>ErrorStatus\<close> with that status and the
  value its body decodes to, \<open>None\<close> for a body that is not JSON. (A call that never
  completes is outside this model.)
\<close>

datatype service_reply =
    Unreachable
  | TimedOut
  | BodyNotJson
  | JsonBody pyval
  | ErrorStatus int "pyval option"

text \<open>The exceptions raised between \<^verbatim>\<open>try\<close> and \<^verbatim>\<open>except\<close> in \<open>ai_extract\<close>.\<close>

datatype extract_exc = ConnectionError | Timeout | JSONDecodeError | AttributeError

text \<open>
  \<^verbatim>\<open>response = requests.post(...)\<close> followed by \<^verbatim>\<open>data = response.json()\<close>. The source
  never reads the status of the response (there is no \<^verbatim>\<open>raise_for_status\<close>), so the
  body of an error reply is decoded like any other.
\<close>

definition response_json :: "service_reply \<Rightarrow> extract_exc + pyval" where
  "response_json reply =
     (case reply of
        Unreachable \<Rightarrow> Inl ConnectionError
      | TimedOut \<Rightarrow> Inl Timeout
      | BodyNotJson \<Rightarrow> Inl JSONDecodeError
      | JsonBody data \<Rightarrow> Inr data
      | ErrorStatus status None \<Rightarrow> Inl JSONDecodeError
      | ErrorStatus status (Some data) \<Rightarrow> Inr data)"

definition nl :: string where
  "nl = [CHR 0x0A]"

definition build_prompt :: "string \<Rightarrow> string" where
  "build_prompt content =
     nl @ ''Extract these fields from the financial document:'' @ nl @ nl @
     ''date'' @ nl @ ''vendor'' @ nl @ ''amount'' @ nl @ ''tax'' @ nl @ nl @
     ''Return ONLY valid JSON.'' @ nl @ nl @
     ''Document:'' @ nl @ content @ nl"

text \<open>
  \<^verbatim>\<open>re.search(r"\{.*\}", text, re.DOTALL)\<close>: the match starts at the first opening brace
  and, the star being greedy and the dot matching every character, ends at the last
  closing brace after it; there is no match when no closing brace follows the first
  opening one.
\<close>

definition re_search_braces :: "string \<Rightarrow> string option" where
  "re_search_braces text =
     (case dropWhile (\<lambda>c. c \<noteq> CHR ''{'') text of
        [] \<Rightarrow> None
      | b # rest \<Rightarrow>
          if CHR ''}'' \<in> set rest
          then Some (b # rev (dropWhile (\<lambda>c. c \<noteq> CHR ''}'') (rev rest)))
          else None)"

text \<open>
  The statements of \<open>ai_extract\<close> between \<^verbatim>\<open>try\<close> and \<^verbatim>\<open>except\<close>, with what they
  raise. The parameter \<open>json_loads\<close> is \<^verbatim>\<open>json.loads\<close> on a text that starts with an
  opening brace: it returns a dictionary or raises (\<open>None\<close>). \<^verbatim>\<open>data.get\<close> on a body that
  is not a dictionary and \<^verbatim>\<open>.strip()\<close> on a response that is not a string raise
  \<^verbatim>\<open>AttributeError\<close>. The result \<open>Inr None\<close> is the block left without a match.
\<close>

definition ai_extract_try ::
  "(string \<Rightarrow> pydict option) \<Rightarrow> (string \<Rightarrow> service_reply) \<Rightarrow> string \<Rightarrow>
     extract_exc + pydict option" where
  "ai_extract_try json_loads post content =
     (case response_json (post (build_prompt content)) of
        Inl e \<Rightarrow> Inl e
      | Inr (PDict data) \<Rightarrow>
          (case dict_get data ''response'' (PStr []) of
             PStr response \<Rightarrow>
               (case re_search_braces (strip response) of
                  Some json_match \<Rightarrow>
                    (case json_loads json_match of
                       Some parsed \<Rightarrow> Inr (Some parsed)
                     | None \<Rightarrow> Inl JSONDecodeError)
                | None \<Rightarrow> Inr None)
           | _ \<Rightarrow> Inl AttributeError)
      | Inr _ \<Rightarrow> Inl AttributeError)"

text \<open>
  \<open>ai_extract\<close>: \<^verbatim>\<open>except Exception\<close> catches whatever the block raises, prints it, and
  the function ends in \<^verbatim>\<open>return None\<close>, as it does when the block found no match.
\<close>

definition ai_extract ::
  "(string \<Rightarrow> pydict option) \<Rightarrow> (string \<Rightarrow> service_reply) \<Rightarrow> string \<Rightarrow> pydict option" where
  "ai_extract json_loads post content =
     (case ai_extract_try json_loads post content of
        Inl e \<Rightarrow> None
      | Inr ai_result \<Rightarrow> ai_result)"

definition fallback_extract :: "string \<Rightarrow> string \<Rightarrow> pydict" where
  "fallback_extract content filename =
     (let base_name = (if filename \<noteq> [] then takeWhile (\<lambda>c. c \<noteq> CHR ''.'') filename else '''')
      in [(''date'', PStr ''''),
          (''vendor'', PStr base_name),
          (''amount'', PInt 0),
          (''tax'', PInt 0),
          (''source'', PStr (if filename \<noteq> [] then filename else ''''))])"

text \<open>\<open>extract_data\<close>: \<^verbatim>\<open>if ai_result\<close> is the truth value of \<^verbatim>\<open>None\<close> or of a
  dictionary, so an empty dictionary counts as no result.\<close>

definition extract_data ::
  "(string \<Rightarrow> pydict option) \<Rightarrow> (string \<Rightarrow> service_reply) \<Rightarrow> string \<Rightarrow> string \<Rightarrow> pydict" where
  "extract_data json_loads post filename content =
     (case ai_extract json_loads post content of
        Some ai_result \<Rightarrow>
          if ai_result \<noteq> [] then dict_set ai_result ''source'' (PStr filename)
          else fallback_extract content filename
      | None \<Rightarrow> fallback_extract content filename)"

section \<open>The aggregator (pipeline/aggregator.py)\<close>

text \<open>
  The names \<^verbatim>\<open>_flatten_records\<close>, \<^verbatim>\<open>_normalize_record\<close> and \<^verbatim>\<open>_safe_float\<close> of the
  source lose their leading underscore here. The calls of \<^verbatim>\<open>debug_log\<close> only print.
\<close>

text \<open>\<^verbatim>\<open>CANONICAL_COLUMNS\<close> of the aggregator.\<close>

definition CANONICAL_COLUMNS :: "string list" where
  "CANONICAL_COLUMNS = [''date'', ''vendor'', ''amount'', ''tax'', ''source'', ''record_id'']"

record AggregationResult =
  records :: "pydict list"
  total_amount :: pyval
  total_tax :: pyval
  document_count :: nat

text \<open>The inner loop of \<open>flatten_records\<close>, over the elements of an item that is a list.\<close>

fun flatten_inner :: "pydict list \<Rightarrow> pyval list \<Rightarrow> pydict list" where
  "flatten_inner flat [] = flat"
| "flatten_inner flat (PDict rec # item) = flatten_inner (flat @ [rec]) item"
| "flatten_inner flat (_ # item) = flatten_inner flat item"

text \<open>The outer loop, with the list \<open>flat\<close> built so far.\<close>

fun flatten_loop :: "pydict list \<Rightarrow> pyval list \<Rightarrow> pydict list" where
  "flatten_loop flat [] = flat"
| "flatten_loop flat (PDict item # results) = flatten_loop (flat @ [item]) results"
| "flatten_loop flat (PList item # results) = flatten_loop (flatten_inner flat item) results"
| "flatten_loop flat (_ # results) = flatten_loop flat results"

definition flatten_records :: "pyval list \<Rightarrow> pydict list" where
  "flatten_records results = flatten_loop [] results"

text \<open>
  \<open>safe_float\<close>. Integers, booleans and floats are converted outside the
  \<^verbatim>\<open>try\<close>; for every other value \<^verbatim>\<open>TypeError\<close> and \<^verbatim>\<open>ValueError\<close> are caught.
\<close>

definition is_int_or_float :: "pyval \<Rightarrow> bool" where
  "is_int_or_float v = (case v of PInt _ \<Rightarrow> True | PBool _ \<Rightarrow> True | PFloat _ \<Rightarrow> True | _ \<Rightarrow> False)"

definition safe_float :: "pyval \<Rightarrow> pyerr + pyfloat" where
  "safe_float v =
     (if is_int_or_float v then py_float v
      else (case py_float v of
              Inl TypeError \<Rightarrow> Inr (FFin 0)
            | Inl ValueError \<Rightarrow> Inr (FFin 0)
            | Inl e \<Rightarrow> Inl e
            | Inr f \<Rightarrow> Inr f))"

text \<open>
  \<open>normalize_record\<close>. \<^verbatim>\<open>uuid.uuid4()\<close> is a generator of tokens: \<open>tok\<close> is the sequence
  of tokens it hands out and the state \<open>n\<close> counts the tokens drawn so far, so the call
  returns \<open>tok n\<close> and leaves the state \<open>Suc n\<close>.
\<close>

definition placeholders :: "string list" where
  "placeholders = [[], ''unknown'', ''n/a'']"

definition normalize_record ::
  "(pyval \<Rightarrow> string) \<Rightarrow> (nat \<Rightarrow> string) \<Rightarrow> nat \<Rightarrow> pydict \<Rightarrow> pyerr + (pydict \<times> nat)" where
  "normalize_record repr tok n rec =
     (let raw_date = dict_get rec ''date'' (PStr []);
          raw_date = (if raw_date = PNone \<or> lower (strip (py_str repr raw_date)) \<in> set placeholders
                      then PStr [] else raw_date);
          raw_vendor = dict_get rec ''vendor'' (PStr []);
          raw_vendor = (if raw_vendor = PNone \<or> lower (strip (py_str repr raw_vendor)) \<in> set placeholders
                        then PStr [] else raw_vendor)
      in case safe_float (dict_get rec ''amount'' (PInt 0)) of
           Inl e \<Rightarrow> Inl e
         | Inr amount \<Rightarrow>
             (case safe_float (dict_get rec ''tax'' (PInt 0)) of
                Inl e \<Rightarrow> Inl e
              | Inr tax \<Rightarrow>
                  Inr ([(''date'', PStr (py_str repr raw_date)),
                        (''vendor'', PStr (py_str repr raw_vendor)),
                        (''amount'', PFloat amount),
                        (''tax'', PFloat tax),
                        (''source'', PStr (py_str repr (dict_get rec ''source'' (PStr [])))),
                        (''record_id'', PStr (tok n))],
                       Suc n)))"

text \<open>The comprehension \<^verbatim>\<open>[_normalize_record(r) for r in records]\<close>.\<close>

fun normalize_all ::
  "(pyval \<Rightarrow> string) \<Rightarrow> (nat \<Rightarrow> string) \<Rightarrow> nat \<Rightarrow> pydict list \<Rightarrow> pyerr + (pydict list \<times> nat)" where
  "normalize_all repr tok n [] = Inr ([], n)"
| "normalize_all repr tok n (r # rs) =
     (case normalize_record repr tok n r of
        Inl e \<Rightarrow> Inl e
      | Inr (c, n') \<Rightarrow>
          (case normalize_all repr tok n' rs of
             Inl e \<Rightarrow> Inl e
           | Inr (cs, n'') \<Rightarrow> Inr (c # cs, n'')))"

text \<open>The generator \<^verbatim>\<open>_safe_float(r.get(key, 0)) for r in records\<close>, as \<^verbatim>\<open>sum\<close> consumes it.\<close>

fun safe_floats :: "string \<Rightarrow> pydict list \<Rightarrow> pyerr + pyfloat list" where
  "safe_floats key [] = Inr []"
| "safe_floats key (r # rs) =
     (case safe_float (dict_get r key (PInt 0)) of
        Inl e \<Rightarrow> Inl e
      | Inr f \<Rightarrow>
          (case safe_floats key rs of
             Inl e \<Rightarrow> Inl e
           | Inr fs \<Rightarrow> Inr (f # fs)))"

text \<open>\<open>merge_data\<close>; the total it computes is only printed.\<close>

definition merge_data ::
  "(pyval \<Rightarrow> string) \<Rightarrow> (nat \<Rightarrow> string) \<Rightarrow> nat \<Rightarrow> pyval list \<Rightarrow> pyerr + (pydict list \<times> nat)" where
  "merge_data repr tok n extraction_results =
     (let flat = flatten_records extraction_results
      in case normalize_all repr tok n flat of
           Inl e \<Rightarrow> Inl e
         | Inr (normalized, n') \<Rightarrow>
             (case safe_floats ''amount'' normalized of
                Inl e \<Rightarrow> Inl e
              | Inr amounts \<Rightarrow> (let total_amt = py_sum amounts in Inr (normalized, n'))))"

definition merge_data_detailed ::
  "(pyval \<Rightarrow> string) \<Rightarrow> (nat \<Rightarrow> string) \<Rightarrow> nat \<Rightarrow> pyval list \<Rightarrow> pyerr + (AggregationResult \<times> nat)" where
  "merge_data_detailed repr tok n extraction_results =
     (case merge_data repr tok n extraction_results of
        Inl e \<Rightarrow> Inl e
      | Inr (recs, n') \<Rightarrow>
          (case safe_floats ''amount'' recs of
             Inl e \<Rightarrow> Inl e
           | Inr amounts \<Rightarrow>
               (case safe_floats ''tax'' recs of
                  Inl e \<Rightarrow> Inl e
                | Inr taxes \<Rightarrow>
                    Inr (\<lparr>records = recs,
                          total_amount = py_sum amounts,
                          total_tax = py_sum taxes,
                          document_count = length extraction_results\<rparr>, n'))))"

section \<open>The tabular serializer (utils/csv_converter.py)\<close>

text \<open>
  Modelled from the spec: the columns of the table \<open>create_csv\<close> writes. The source
  hands the records to pandas (\<^verbatim>\<open>pd.DataFrame(data).to_csv(path, index=False)\<close>), whose
  code is not part of the repository. After the spec's section 4.3 the header holds the
  field names as the records give them; they are read off the first record, and an
  empty input has no columns.
\<close>

definition csv_columns :: "pydict list \<Rightarrow> string list" where
  "csv_columns data = (case data of [] \<Rightarrow> [] | r # _ \<Rightarrow> map fst r)"

text \<open>
  Modelled from the spec: the table itself, which pandas builds and the repository does
  not contain. One header row, then one data row per record in the order of the records,
  each holding the values of that record under the columns, written as text, and nothing
  after the last record. A table is kept as its rows of cells; the text of a cell is the
  parameter \<open>cell\<close>, and joining the cells by commas and the rows by line ends is not
  modelled.
\<close>

definition csv_table :: "(pyval \<Rightarrow> string) \<Rightarrow> pydict list \<Rightarrow> string list list" where
  "csv_table cell data =
     csv_columns data # map (\<lambda>r. map (\<lambda>k. cell (dict_get r k PNone)) (csv_columns data)) data"

text \<open>
  Modelled from the spec: writing the table to the destination, which pandas does. The
  destination is overwritten, never appended to. The file system is a map from paths to
  tables.
\<close>

definition create_csv ::
  "(pyval \<Rightarrow> string) \<Rightarrow> pydict list \<Rightarrow> string \<Rightarrow> (string \<rightharpoonup> string list list) \<Rightarrow>
     (string \<rightharpoonup> string list list)" where
  "create_csv cell data path files = files(path \<mapsto> csv_table cell data)"

section \<open>Notions used in the statements\<close>

text \<open>\<^verbatim>\<open>isinstance(x, dict)\<close>\<close>

definition is_dict :: "pyval \<Rightarrow> bool" where
  "is_dict x = (case x of PDict _ \<Rightarrow> True | _ \<Rightarrow> False)"

text \<open>The text \<open>normalize_record\<close> stores for a raw date or vendor; the source writes
  these two steps out once for each of the two fields.\<close>

definition clean_text :: "(pyval \<Rightarrow> string) \<Rightarrow> pyval \<Rightarrow> string" where
  "clean_text repr raw =
     py_str repr (if raw = PNone \<or> lower (strip (py_str repr raw)) \<in> set placeholders
                  then PStr [] else raw)"

section \<open>Properties of the extractor\<close>

lemma fallback_extract_eq:
  "fallback_extract content filename =
     [(''date'', PStr []),
      (''vendor'', PStr (takeWhile (\<lambda>c. c \<noteq> CHR ''.'') filename)),
      (''amount'', PInt 0),
      (''tax'', PInt 0),
      (''source'', PStr filename)]"
  by (cases filename) (simp_all add: fallback_extract_def)

lemma ai_extract_eq:
  "ai_extract json_loads post content =
     (case response_json (post (build_prompt content)) of
        Inr (PDict data) \<Rightarrow>
          (case dict_get data ''response'' (PStr []) of
             PStr response \<Rightarrow>
               (case re_search_braces (strip response) of
                  Some json_match \<Rightarrow> json_loads json_match
                | None \<Rightarrow> None)
           | _ \<Rightarrow> None)
      | _ \<Rightarrow> None)"
  by (simp add: ai_extract_def ai_extract_try_def split: sum.splits pyval.splits option.splits)

lemma ai_extract_caught:
  "ai_extract_try json_loads post content = Inl e \<Longrightarrow> ai_extract json_loads post content = None"
  by (simp add: ai_extract_def)

text \<open>
  The mapping an error reply can carry: the service answers with status 500 and a body
  whose response text holds the object \<^verbatim>\<open>{"vendor": "ACME"}\<close>.
\<close>

lemma error_reply_parsed:
  "extract_data (\<lambda>s. if s = ''{'' @ [CHR 0x22] @ ''vendor'' @ [CHR 0x22] @ '': '' @
                              [CHR 0x22] @ ''ACME'' @ [CHR 0x22] @ ''}''
                      then Some [(''vendor'', PStr ''ACME'')] else None)
     (\<lambda>p. ErrorStatus 500
        (Some (PDict [(''response'',
           PStr (''{'' @ [CHR 0x22] @ ''vendor'' @ [CHR 0x22] @ '': '' @
                 [CHR 0x22] @ ''ACME'' @ [CHR 0x22] @ ''}''))])))
     ''invoice_001.txt'' ''Total: 5000'' =
   [(''vendor'', PStr ''ACME''), (''source'', PStr ''invoice_001.txt'')]"
  by (simp add: extract_data_def ai_extract_eq response_json_def dict_get_def
        re_search_braces_def strip_def str_space_def)

text \<open>
  Claim C1, as the spec states it, counts a reply with an error status among the
  failures after which \<open>extract_data\<close> returns the fallback record. The code never reads
  the status: at the error reply above it returns the parsed mapping, not the fallback
  record.
\<close>

theorem extract_data_error_reply_counterexample:
  "extract_data (\<lambda>s. if s = ''{'' @ [CHR 0x22] @ ''vendor'' @ [CHR 0x22] @ '': '' @
                              [CHR 0x22] @ ''ACME'' @ [CHR 0x22] @ ''}''
                      then Some [(''vendor'', PStr ''ACME'')] else None)
     (\<lambda>p. ErrorStatus 500
        (Some (PDict [(''response'',
           PStr (''{'' @ [CHR 0x22] @ ''vendor'' @ [CHR 0x22] @ '': '' @
                 [CHR 0x22] @ ''ACME'' @ [CHR 0x22] @ ''}''))])))
     ''invoice_001.txt'' ''Total: 5000'' \<noteq>
   [(''date'', PStr []), (''vendor'', PStr ''invoice_001''), (''amount'', PInt 0),
    (''tax'', PInt 0), (''source'', PStr ''invoice_001.txt'')]"
  by (simp add: extract_data_def ai_extract_eq response_json_def dict_get_def
        re_search_braces_def strip_def str_space_def)

text \<open>
  Claim C1, amended. Whenever the request raises (the service cannot be reached, the call
  times out), the body of the reply is not JSON, or the reply, whatever its status,
  holds no text with a JSON object that parses, \<open>extract_data\<close> returns exactly the
  fallback record: an empty date, the document name up to its first dot as vendor,
  amount 0, tax 0, and the document name as source. And \<open>extract_data\<close> never raises:
  whatever exception the call of the service or the reading of its reply raises, the
  result is that same fallback record. The status of a reply alone decides nothing.
\<close>

theorem extract_data_failure_fallback:
  "((post (build_prompt content) = Unreachable
     \<or> post (build_prompt content) = TimedOut
     \<or> post (build_prompt content) = BodyNotJson
     \<or> (\<exists>status. post (build_prompt content) = ErrorStatus status None)
     \<or> (\<exists>body.
           (post (build_prompt content) = JsonBody body
            \<or> (\<exists>status. post (build_prompt content) = ErrorStatus status (Some body))) \<and>
           (\<forall>data response json_match.
              body = PDict data \<longrightarrow>
              dict_get data ''response'' (PStr []) = PStr response \<longrightarrow>
              re_search_braces (strip response) = Some json_match \<longrightarrow>
              json_loads json_match = None)))
    \<longrightarrow> extract_data json_loads post filename content =
          [(''date'', PStr []),
           (''vendor'', PStr (takeWhile (\<lambda>c. c \<noteq> CHR ''.'') filename)),
           (''amount'', PInt 0),
           (''tax'', PInt 0),
           (''source'', PStr filename)])
   \<and> (\<forall>e. ai_extract_try json_loads post content = Inl e
          \<longrightarrow> extract_data json_loads post filename content =
                [(''date'', PStr []),
                 (''vendor'', PStr (takeWhile (\<lambda>c. c \<noteq> CHR ''.'') filename)),
                 (''amount'', PInt 0),
                 (''tax'', PInt 0),
                 (''source'', PStr filename)])"
proof (intro conjI impI allI)
  assume "post (build_prompt content) = Unreachable
     \<or> post (build_prompt content) = TimedOut
     \<or> post (build_prompt content) = BodyNotJson
     \<or> (\<exists>status. post (build_prompt content) = ErrorStatus status None)
     \<or> (\<exists>body.
           (post (build_prompt content) = JsonBody body
            \<or> (\<exists>status. post (build_prompt content) = ErrorStatus status (Some body))) \<and>
           (\<forall>data response json_match.
              body = PDict data \<longrightarrow>
              dict_get data ''response'' (PStr []) = PStr response \<longrightarrow>
              re_search_braces (strip response) = Some json_match \<longrightarrow>
              json_loads json_match = None))"
  then have "ai_extract json_loads post content = None"
    by (auto simp: ai_extract_eq response_json_def split: pyval.splits option.splits)
  then show "extract_data json_loads post filename content =
          [(''date'', PStr []),
           (''vendor'', PStr (takeWhile (\<lambda>c. c \<noteq> CHR ''.'') filename)),
           (''amount'', PInt 0),
           (''tax'', PInt 0),
           (''source'', PStr filename)]"
    by (simp add: extract_data_def fallback_extract_eq)
next
  fix e
  assume "ai_extract_try json_loads post content = Inl e"
  then have "ai_extract json_loads post content = None"
    by (rule ai_extract_caught)
  then show "extract_data json_loads post filename content =
          [(''date'', PStr []),
           (''vendor'', PStr (takeWhile (\<lambda>c. c \<noteq> CHR ''.'') filename)),
           (''amount'', PInt 0),
           (''tax'', PInt 0),
           (''source'', PStr filename)]"
    by (simp add: extract_data_def fallback_extract_eq)
qed

theorem extract_data_failure_fallback_witness:
  "extract_data (\<lambda>s. None) (\<lambda>p. Unreachable) ''invoice_001.txt'' ''Total: 5000'' =
     [(''date'', PStr []), (''vendor'', PStr ''invoice_001''), (''amount'', PInt 0),
      (''tax'', PInt 0), (''source'', PStr ''invoice_001.txt'')]
   \<and> extract_data (\<lambda>s. None)
        (\<lambda>p. ErrorStatus 503 (Some (PDict [(''error'', PStr ''model not loaded'')])))
        ''statement'' [] =
     [(''date'', PStr []), (''vendor'', PStr ''statement''), (''amount'', PInt 0),
      (''tax'', PInt 0), (''source'', PStr ''statement'')]"
proof -
  have a: "extract_data (\<lambda>s. None) (\<lambda>p. Unreachable) ''invoice_001.txt'' ''Total: 5000'' =
     [(''date'', PStr []),
      (''vendor'', PStr (takeWhile (\<lambda>c. c \<noteq> CHR ''.'') ''invoice_001.txt'')),
      (''amount'', PInt 0), (''tax'', PInt 0), (''source'', PStr ''invoice_001.txt'')]"
    by (rule extract_data_failure_fallback [THEN conjunct1, rule_format]) simp
  have b: "extract_data (\<lambda>s. None)
        (\<lambda>p. ErrorStatus 503 (Some (PDict [(''error'', PStr ''model not loaded'')])))
        ''statement'' [] =
     [(''date'', PStr []),
      (''vendor'', PStr (takeWhile (\<lambda>c. c \<noteq> CHR ''.'') ''statement'')),
      (''amount'', PInt 0), (''tax'', PInt 0), (''source'', PStr ''statement'')]"
    by (rule extract_data_failure_fallback [THEN conjunct1, rule_format]) simp
  from a b show ?thesis by simp
qed

text \<open>
  Claim C10. Success is decided by the truth value of the parsed result: when the service
  answers and the JSON object parses, \<open>extract_data\<close> returns the parsed mapping with
  \<open>source\<close> overwritten only if that mapping is not empty; an empty object is discarded
  and the fallback record derived from the file name is returned.
\<close>

theorem extract_data_empty_mapping_discarded:
  assumes "post (build_prompt content) = JsonBody (PDict data)"
    and "dict_get data ''response'' (PStr []) = PStr response"
    and "re_search_braces (strip response) = Some json_match"
    and "json_loads json_match = Some parsed"
  shows "extract_data json_loads post filename content =
     (if parsed = []
      then [(''date'', PStr []),
            (''vendor'', PStr (takeWhile (\<lambda>c. c \<noteq> CHR ''.'') filename)),
            (''amount'', PInt 0),
            (''tax'', PInt 0),
            (''source'', PStr filename)]
      else dict_set parsed ''source'' (PStr filename))"
proof -
  have "ai_extract json_loads post content = Some parsed"
    using assms by (simp add: ai_extract_eq response_json_def)
  then show ?thesis
    by (simp add: extract_data_def fallback_extract_eq)
qed

theorem extract_data_empty_mapping_discarded_witness:
  "extract_data (\<lambda>s. if s = ''{}'' then Some [] else None)
     (\<lambda>p. JsonBody (PDict [(''response'', PStr '' {} '')])) ''a.b.txt'' ''text'' =
     [(''date'', PStr []), (''vendor'', PStr ''a''), (''amount'', PInt 0),
      (''tax'', PInt 0), (''source'', PStr ''a.b.txt'')]
   \<and> extract_data (\<lambda>s. if s = (''{'' @ [CHR 0x22] @ ''tax'' @ [CHR 0x22] @ '': 1}'') then Some [(''tax'', PInt 1)] else None)
     (\<lambda>p. JsonBody (PDict [(''response'', PStr (''Here: {'' @ [CHR 0x22] @ ''tax'' @ [CHR 0x22] @ '': 1}''))])) ''a.b.txt'' ''text'' =
     [(''tax'', PInt 1), (''source'', PStr ''a.b.txt'')]"
proof -
  have a: "extract_data (\<lambda>s. if s = ''{}'' then Some [] else None)
     (\<lambda>p. JsonBody (PDict [(''response'', PStr '' {} '')])) ''a.b.txt'' ''text'' =
     (if ([]::pydict) = []
      then [(''date'', PStr []),
            (''vendor'', PStr (takeWhile (\<lambda>c. c \<noteq> CHR ''.'') ''a.b.txt'')),
            (''amount'', PInt 0), (''tax'', PInt 0), (''source'', PStr ''a.b.txt'')]
      else dict_set [] ''source'' (PStr ''a.b.txt''))"
    by (rule extract_data_empty_mapping_discarded [where data = "[(''response'', PStr '' {} '')]"
          and response = "'' {} ''" and json_match = "''{}''"])
       (simp_all add: dict_get_def re_search_braces_def strip_def str_space_def)
  have b: "extract_data (\<lambda>s. if s = (''{'' @ [CHR 0x22] @ ''tax'' @ [CHR 0x22] @ '': 1}'') then Some [(''tax'', PInt 1)] else None)
     (\<lambda>p. JsonBody (PDict [(''response'', PStr (''Here: {'' @ [CHR 0x22] @ ''tax'' @ [CHR 0x22] @ '': 1}''))])) ''a.b.txt'' ''text'' =
     (if [(''tax'', PInt 1)] = []
      then [(''date'', PStr []),
            (''vendor'', PStr (takeWhile (\<lambda>c. c \<noteq> CHR ''.'') ''a.b.txt'')),
            (''amount'', PInt 0), (''tax'', PInt 0), (''source'', PStr ''a.b.txt'')]
      else dict_set [(''tax'', PInt 1)] ''source'' (PStr ''a.b.txt''))"
    by (rule extract_data_empty_mapping_discarded [where data = "[(''response'', PStr (''Here: {'' @ [CHR 0x22] @ ''tax'' @ [CHR 0x22] @ '': 1}''))]"
          and response = "(''Here: {'' @ [CHR 0x22] @ ''tax'' @ [CHR 0x22] @ '': 1}'')" and json_match = "(''{'' @ [CHR 0x22] @ ''tax'' @ [CHR 0x22] @ '': 1}'')"])
       (simp_all add: dict_get_def re_search_braces_def strip_def str_space_def)
  from a b show ?thesis by simp
qed

section \<open>Properties of the aggregator\<close>

subsection \<open>Flattening\<close>

lemma flatten_inner_acc: "flatten_inner flat item = flat @ flatten_inner [] item"
proof (induction item arbitrary: flat)
  case Nil
  show ?case by simp
next
  case (Cons x item)
  show ?case
  proof (cases x)
    case (PDict d)
    have "flatten_inner flat (x # item) = (flat @ [d]) @ flatten_inner [] item"
      using Cons.IH [of "flat @ [d]"] PDict by simp
    moreover have "flatten_inner [] (x # item) = [d] @ flatten_inner [] item"
      using Cons.IH [of "[d]"] PDict by simp
    ultimately show ?thesis by simp
  qed (use Cons.IH [of flat] in simp_all)
qed

lemma flatten_inner_dicts: "flatten_inner [] item = concat (map (\<lambda>x. case x of PDict d \<Rightarrow> [d] | _ \<Rightarrow> []) item)"
proof (induction item)
  case Nil
  show ?case by simp
next
  case (Cons x item)
  show ?case
  proof (cases x)
    case (PDict d)
    then show ?thesis using Cons.IH flatten_inner_acc [of "[d]" item] by simp
  qed (use Cons.IH in simp_all)
qed

lemma flatten_inner_append:
  "flatten_inner [] (as @ bs) = flatten_inner [] as @ flatten_inner [] bs"
  by (simp add: flatten_inner_dicts)

lemma length_flatten_inner: "length (flatten_inner [] item) = length (filter is_dict item)"
  by (induction item) (auto simp: flatten_inner_dicts is_dict_def split: pyval.splits)

lemma flatten_loop_acc: "flatten_loop flat results = flat @ flatten_loop [] results"
proof (induction results arbitrary: flat)
  case Nil
  show ?case by simp
next
  case (Cons x results)
  show ?case
  proof (cases x)
    case (PDict d)
    have "flatten_loop flat (x # results) = (flat @ [d]) @ flatten_loop [] results"
      using Cons.IH [of "flat @ [d]"] PDict by simp
    moreover have "flatten_loop [] (x # results) = [d] @ flatten_loop [] results"
      using Cons.IH [of "[d]"] PDict by simp
    ultimately show ?thesis by simp
  next
    case (PList item)
    have "flatten_loop flat (x # results) = (flat @ flatten_inner [] item) @ flatten_loop [] results"
      using Cons.IH [of "flatten_inner flat item"] flatten_inner_acc [of flat item] PList by simp
    moreover have "flatten_loop [] (x # results) = flatten_inner [] item @ flatten_loop [] results"
      using Cons.IH [of "flatten_inner [] item"] PList by simp
    ultimately show ?thesis by simp
  qed (use Cons.IH [of flat] in simp_all)
qed

lemma flatten_records_Nil: "flatten_records [] = []"
  by (simp add: flatten_records_def)

lemma flatten_records_Cons:
  "flatten_records (x # results) =
     (case x of PDict d \<Rightarrow> [d] | PList item \<Rightarrow> flatten_inner [] item | _ \<Rightarrow> []) @
     flatten_records results"
  unfolding flatten_records_def
  by (cases x) (simp_all add: flatten_loop_acc [of "[_]"] flatten_loop_acc [of "flatten_inner [] _"])

lemma flatten_records_append:
  "flatten_records (xs @ ys) = flatten_records xs @ flatten_records ys"
  by (induction xs) (simp_all add: flatten_records_Nil flatten_records_Cons)

lemma length_flatten_records:
  "length (flatten_records results) =
     (\<Sum>item\<leftarrow>results. case item of PDict d \<Rightarrow> 1 | PList elems \<Rightarrow> length (filter is_dict elems) | _ \<Rightarrow> 0)"
  by (induction results)
     (simp_all add: flatten_records_Nil flatten_records_Cons length_flatten_inner split: pyval.splits)

subsection \<open>Normalization\<close>

lemma safe_float_PFloat: "safe_float (PFloat f) = Inr f"
  by (simp add: safe_float_def is_int_or_float_def)

lemma float_of_str_error: "float_of_str s = Inl e \<Longrightarrow> e = ValueError"
  by (auto simp: float_of_str_def split: option.splits prod.splits if_splits)

lemma safe_float_error: "safe_float v = Inl e \<Longrightarrow> e = OverflowError \<and> (\<exists>i. v = PInt i)"
  by (cases v)
     (auto simp: safe_float_def is_int_or_float_def float_of_int_def
           dest: float_of_str_error split: pyfloat.splits sum.splits pyerr.splits if_splits)

lemma normalize_record_eq:
  "normalize_record repr tok n r =
     (case safe_float (dict_get r ''amount'' (PInt 0)) of
        Inl e \<Rightarrow> Inl e
      | Inr amount \<Rightarrow>
          (case safe_float (dict_get r ''tax'' (PInt 0)) of
             Inl e \<Rightarrow> Inl e
           | Inr tax \<Rightarrow>
               Inr ([(''date'', PStr (clean_text repr (dict_get r ''date'' (PStr [])))),
                     (''vendor'', PStr (clean_text repr (dict_get r ''vendor'' (PStr [])))),
                     (''amount'', PFloat amount),
                     (''tax'', PFloat tax),
                     (''source'', PStr (py_str repr (dict_get r ''source'' (PStr [])))),
                     (''record_id'', PStr (tok n))],
                    Suc n)))"
  unfolding normalize_record_def clean_text_def Let_def ..

lemma normalize_record_Inr:
  assumes "normalize_record repr tok n r = Inr (c, n')"
  obtains amount tax where
    "safe_float (dict_get r ''amount'' (PInt 0)) = Inr amount"
    "safe_float (dict_get r ''tax'' (PInt 0)) = Inr tax"
    "c = [(''date'', PStr (clean_text repr (dict_get r ''date'' (PStr [])))),
          (''vendor'', PStr (clean_text repr (dict_get r ''vendor'' (PStr [])))),
          (''amount'', PFloat amount),
          (''tax'', PFloat tax),
          (''source'', PStr (py_str repr (dict_get r ''source'' (PStr [])))),
          (''record_id'', PStr (tok n))]"
    "n' = Suc n"
  using assms unfolding normalize_record_eq
  by (auto split: sum.splits)

lemma clean_text_idem: "clean_text repr (PStr (clean_text repr v)) = clean_text repr v"
  by (simp add: clean_text_def placeholders_def strip_def lower_def)

lemma normalize_all_Inr:
  "normalize_all repr tok n rs = Inr (cs, n') \<Longrightarrow>
     length cs = length rs \<and> n' = n + length rs \<and>
     (\<forall>i < length rs. normalize_record repr tok (n + i) (rs ! i) = Inr (cs ! i, Suc (n + i)))"
proof (induction rs arbitrary: n cs)
  case Nil
  then show ?case by simp
next
  case (Cons r rs)
  from Cons.prems obtain c n1 cs' where
    c: "normalize_record repr tok n r = Inr (c, n1)" and
    rest: "normalize_all repr tok n1 rs = Inr (cs', n')" and
    cs: "cs = c # cs'"
    by (auto split: sum.splits prod.splits)
  from c have n1: "n1 = Suc n" by (rule normalize_record_Inr)
  from Cons.IH [OF rest] have ih:
    "length cs' = length rs" "n' = n1 + length rs"
    "\<forall>i < length rs. normalize_record repr tok (n1 + i) (rs ! i) = Inr (cs' ! i, Suc (n1 + i))"
    by simp_all
  show ?case
  proof (intro conjI allI impI)
    show "length cs = length (r # rs)" using ih cs by simp
    show "n' = n + length (r # rs)" using ih n1 by simp
    fix i assume "i < length (r # rs)"
    then show "normalize_record repr tok (n + i) ((r # rs) ! i) = Inr (cs ! i, Suc (n + i))"
      using c ih(3) n1 cs by (cases i) simp_all
  qed
qed

lemma normalize_all_append_eq:
  "normalize_all repr tok n (rs @ ss) =
     (case normalize_all repr tok n rs of
        Inl e \<Rightarrow> Inl e
      | Inr (c1, n1) \<Rightarrow>
          (case normalize_all repr tok n1 ss of
             Inl e \<Rightarrow> Inl e
           | Inr (c2, n2) \<Rightarrow> Inr (c1 @ c2, n2)))"
proof (induction rs arbitrary: n)
  case Nil
  show ?case by (simp split: sum.splits prod.splits)
next
  case (Cons r rs)
  show ?case
  proof (cases "normalize_record repr tok n r")
    case (Inl e)
    then show ?thesis by simp
  next
    case (Inr p)
    obtain c n1 where p: "p = (c, n1)" by (cases p)
    show ?thesis
      using Inr p Cons.IH [of n1]
      by (simp split: sum.splits prod.splits)
  qed
qed

lemma normalize_all_append:
  "normalize_all repr tok n (rs @ ss) = Inr (cs, n') \<longleftrightarrow>
     (\<exists>c1 n1 c2. normalize_all repr tok n rs = Inr (c1, n1) \<and>
                  normalize_all repr tok n1 ss = Inr (c2, n') \<and> cs = c1 @ c2)"
  unfolding normalize_all_append_eq
  by (auto split: sum.splits prod.splits)

lemma safe_floats_normalized:
  assumes "normalize_all repr tok n rs = Inr (cs, n')" and "key = ''amount'' \<or> key = ''tax''"
  shows "\<exists>fs. safe_floats key cs = Inr fs \<and> map (\<lambda>c. dict_get c key (PInt 0)) cs = map PFloat fs"
  using assms(1)
proof (induction rs arbitrary: n cs)
  case Nil
  then show ?case by simp
next
  case (Cons r rs)
  from Cons.prems obtain c n1 cs' where
    c: "normalize_record repr tok n r = Inr (c, n1)" and
    rest: "normalize_all repr tok n1 rs = Inr (cs', n')" and
    cs: "cs = c # cs'"
    by (auto split: sum.splits prod.splits)
  from Cons.IH [OF rest] obtain fs where
    fs: "safe_floats key cs' = Inr fs" "map (\<lambda>c. dict_get c key (PInt 0)) cs' = map PFloat fs"
    by blast
  from c obtain f where f: "dict_get c key (PInt 0) = PFloat f"
    using assms(2) by (elim normalize_record_Inr) (auto simp: dict_get_def)
  show ?case
    using fs f cs by (intro exI [of _ "f # fs"]) (simp add: safe_float_PFloat)
qed

lemma merge_data_eq: "merge_data repr tok n results = normalize_all repr tok n (flatten_records results)"
proof (cases "normalize_all repr tok n (flatten_records results)")
  case (Inl e)
  then show ?thesis by (simp add: merge_data_def)
next
  case (Inr p)
  obtain cs n' where p: "p = (cs, n')" by (cases p)
  from safe_floats_normalized [of repr tok n "flatten_records results" cs n' "''amount''"] Inr p
  obtain fs where "safe_floats ''amount'' cs = Inr fs" by auto
  then show ?thesis using Inr p by (simp add: merge_data_def)
qed

subsection \<open>Floats: integers of magnitude \<open>2 ^ 1024\<close> and more do not convert\<close>

lemma pow2_powi: "pow2 e = 2 powi e"
  by (simp add: pow2_def power_int_def inverse_eq_divide power_one_over)

lemma pow2_pos: "0 < pow2 e"
  by (simp add: pow2_powi)

lemma pow2_add: "pow2 (a + b) = pow2 a * pow2 b"
  by (simp add: pow2_powi power_int_add)

lemma pow2_mono: "a \<le> b \<Longrightarrow> pow2 a \<le> pow2 b"
  by (simp add: pow2_powi power_int_increasing)

lemma pow2_nat: "0 \<le> e \<Longrightarrow> pow2 e = of_int (2 ^ nat e)"
  by (simp add: pow2_def)

lemma bit_length_nonpos: "n \<le> 0 \<Longrightarrow> bit_length n = 0"
  by (simp add: bit_length.simps [of n])

lemma bit_length_pos: "0 < n \<Longrightarrow> bit_length n = Suc (bit_length (n div 2))"
  by (simp add: bit_length.simps [of n])

lemma bit_length_lower: "0 < n \<Longrightarrow> 2 ^ (bit_length n - 1) \<le> n"
proof (induction n rule: bit_length.induct)
  case (1 n)
  show ?case
  proof (cases "n div 2 \<le> 0")
    case True
    with "1.prems" have "bit_length n = 1"
      by (simp add: bit_length_pos bit_length_nonpos)
    with "1.prems" show ?thesis by simp
  next
    case False
    then have pos: "0 < n div 2" by simp
    with "1.prems" "1.IH" have ih: "2 ^ (bit_length (n div 2) - 1) \<le> n div 2" by simp
    from pos have "0 < bit_length (n div 2)"
      by (simp add: bit_length.simps [of "n div 2"])
    then have "(2::int) ^ bit_length (n div 2) = 2 * 2 ^ (bit_length (n div 2) - 1)"
      by (cases "bit_length (n div 2)") simp_all
    also have "\<dots> \<le> 2 * (n div 2)" using ih by simp
    also have "\<dots> \<le> n" by simp
    finally have "(2::int) ^ bit_length (n div 2) \<le> n" .
    moreover from "1.prems" have "bit_length n - 1 = bit_length (n div 2)"
      by (simp add: bit_length.simps [of n])
    ultimately show ?thesis by simp
  qed
qed

lemma floor_log2_lower:
  assumes "1 \<le> q"
  shows "pow2 (floor_log2 q) \<le> q"
proof -
  from assms have f: "0 < \<lfloor>q\<rfloor>" by simp
  then have b: "0 < bit_length \<lfloor>q\<rfloor>"
    by (simp add: bit_length.simps [of "\<lfloor>q\<rfloor>"])
  have "floor_log2 q = int (bit_length \<lfloor>q\<rfloor> - 1)"
    using assms b by (simp add: floor_log2_def)
  then have "pow2 (floor_log2 q) = of_int (2 ^ (bit_length \<lfloor>q\<rfloor> - 1))"
    by (simp add: pow2_nat)
  also have "\<dots> \<le> of_int \<lfloor>q\<rfloor>"
    using bit_length_lower [OF f] by (simp only: of_int_le_iff)
  also have "\<dots> \<le> q" by simp
  finally show ?thesis .
qed

lemma round_half_even_ge_floor: "\<lfloor>x\<rfloor> \<le> round_half_even x"
  by (simp add: round_half_even_def Let_def)

lemma round_half_even_ge:
  assumes "of_int k \<le> x"
  shows "k \<le> round_half_even x"
proof -
  from assms have "k \<le> \<lfloor>x\<rfloor>" by (simp add: le_floor_iff)
  with round_half_even_ge_floor [of x] show ?thesis by simp
qed

lemma round_double_overflow:
  assumes "pow2 1024 \<le> \<bar>q\<bar>"
  shows "round_double q = (if q < 0 then FNegInf else FInf)"
proof -
  define a where "a = \<bar>q\<bar>"
  define e where "e = max (floor_log2 a) (- 1022)"
  define ulp where "ulp = pow2 (e - 52)"
  define r where "r = of_int (round_half_even (a / ulp)) * ulp"
  have a1: "1 \<le> a"
  proof -
    have "pow2 0 \<le> pow2 1024" by (rule pow2_mono) simp
    with assms show ?thesis by (simp add: a_def pow2_def)
  qed
  have ulp_pos: "0 < ulp" by (simp add: ulp_def pow2_pos)
  have le_e: "pow2 e \<le> a"
  proof (cases "- 1022 \<le> floor_log2 a")
    case True
    then show ?thesis using floor_log2_lower [OF a1] by (simp add: e_def max_def)
  next
    case False
    then have "e = - 1022" by (simp add: e_def max_def)
    moreover have "pow2 (- 1022) \<le> pow2 0" by (rule pow2_mono) simp
    ultimately show ?thesis using a1 by (simp add: pow2_def)
  qed
  have big: "pow2 1024 \<le> r"
  proof (cases "e \<le> 1076")
    case True
    define k where "k = 1076 - e"
    have k: "0 \<le> k" using True by (simp add: k_def)
    have split: "pow2 1024 = pow2 k * ulp"
      unfolding ulp_def k_def by (simp add: pow2_add [symmetric])
    have "pow2 k \<le> a / ulp"
      using assms ulp_pos split by (simp add: a_def pos_le_divide_eq)
    then have "of_int (2 ^ nat k) \<le> a / ulp" using k by (simp add: pow2_nat)
    then have "2 ^ nat k \<le> round_half_even (a / ulp)" by (rule round_half_even_ge)
    then have "(of_int (2 ^ nat k) :: rat) \<le> of_int (round_half_even (a / ulp))"
      by (simp only: of_int_le_iff)
    then have "pow2 k * ulp \<le> r"
      using ulp_pos k unfolding r_def by (simp add: pow2_nat)
    with split show ?thesis by simp
  next
    case False
    have split: "pow2 e = pow2 52 * ulp"
      unfolding ulp_def by (simp add: pow2_add [symmetric])
    have "pow2 52 \<le> a / ulp"
      using le_e ulp_pos split by (simp add: pos_le_divide_eq)
    then have "of_int (2 ^ nat 52) \<le> a / ulp" by (simp add: pow2_nat)
    then have "2 ^ nat 52 \<le> round_half_even (a / ulp)" by (rule round_half_even_ge)
    then have "(of_int (2 ^ nat 52) :: rat) \<le> of_int (round_half_even (a / ulp))"
      by (simp only: of_int_le_iff)
    then have "pow2 52 * ulp \<le> r"
      using ulp_pos unfolding r_def by (simp add: pow2_nat)
    with split have "pow2 e \<le> r" by simp
    moreover have "pow2 1024 \<le> pow2 e" using False by (intro pow2_mono) simp
    ultimately show ?thesis by simp
  qed
  have nz: "q \<noteq> 0" using a1 by (auto simp: a_def)
  show ?thesis
    using nz big unfolding round_double_def Let_def a_def [symmetric] e_def [symmetric]
      ulp_def [symmetric] r_def [symmetric]
    by simp
qed

lemma float_of_int_overflow:
  assumes "2 ^ 1024 \<le> \<bar>n\<bar>"
  shows "float_of_int n = Inl OverflowError"
proof -
  have "(of_int (2 ^ 1024) :: rat) \<le> of_int \<bar>n\<bar>"
    using assms by (simp only: of_int_le_iff)
  then have "pow2 1024 \<le> \<bar>of_int n :: rat\<bar>"
    by (simp add: pow2_def)
  from round_double_overflow [OF this] show ?thesis
    by (simp add: float_of_int_def)
qed

text \<open>Evaluating \<open>round_double\<close> step by step.\<close>

lemma floor_rat_numeral_div:
  "\<lfloor>numeral a / numeral b :: rat\<rfloor> = numeral a div numeral b"
  by (metis floor_divide_of_int_eq of_int_numeral)

lemma round_double_eval:
  assumes "q \<noteq> 0"
    and "max (floor_log2 \<bar>q\<bar>) (- 1022) = e"
    and "pow2 (e - 52) = ulp"
    and "round_half_even (\<bar>q\<bar> / ulp) = m"
    and "\<not> pow2 1024 \<le> of_int m * ulp"
  shows "round_double q = FFin (if q < 0 then - (of_int m * ulp) else of_int m * ulp)"
  unfolding round_double_def Let_def assms(2) assms(3) assms(4)
  using assms(1) assms(5) by simp

lemma round_double_12_5: "round_double (25 / 2) = FFin (25 / 2)"
proof -
  have "round_double (25 / 2) =
      FFin (if (25 / 2 :: rat) < 0 then - (of_int 7036874417766400 * (1 / 562949953421312))
            else of_int 7036874417766400 * (1 / 562949953421312))"
  proof (rule round_double_eval)
    show "(25 / 2 :: rat) \<noteq> 0" by simp
    show "max (floor_log2 \<bar>25 / 2\<bar>) (- 1022) = 3"
      by (simp add: floor_log2_def bit_length.simps floor_rat_numeral_div)
    show "pow2 (3 - 52) = 1 / 562949953421312"
      by (simp add: pow2_def)
    show "round_half_even (\<bar>25 / 2\<bar> / (1 / 562949953421312)) = 7036874417766400"
      by (simp add: round_half_even_def Let_def floor_rat_numeral_div)
    show "\<not> pow2 1024 \<le> of_int 7036874417766400 * (1 / 562949953421312)"
      by (simp add: pow2_def)
  qed
  then show ?thesis by simp
qed

lemma float_of_str_12_5: "float_of_str ''12.5'' = Inr (FFin (25 / 2))"
  by (simp add: float_of_str_def split_sign_def float_strip_def float_space_def lower_def
      lower_char_def parse_decimal_def parse_exponent_def is_digit_def digits_val_def
      digit_val_def pow10_def round_double_12_5)

lemma float_of_str_abc: "float_of_str ''abc'' = Inl ValueError"
  by (simp add: float_of_str_def split_sign_def float_strip_def float_space_def lower_def
      lower_char_def parse_decimal_def parse_exponent_def is_digit_def)

lemma float_of_int_0: "float_of_int 0 = Inr (FFin 0)"
  by (simp add: float_of_int_def round_double_def)

subsection \<open>Evaluation of concrete calls\<close>

lemma safe_float_0: "safe_float (PInt 0) = Inr (FFin 0)"
  by (simp add: safe_float_def is_int_or_float_def float_of_int_0)

lemma merge_data_single:
  "merge_data repr tok n [PDict r] =
     (case normalize_record repr tok n r of Inl e \<Rightarrow> Inl e | Inr (c, n') \<Rightarrow> Inr ([c], n'))"
  by (simp add: merge_data_eq flatten_records_def split: sum.splits prod.splits)

lemmas eval_simps =
  merge_data_eq flatten_records_def normalize_record_eq dict_get_def safe_float_0
  clean_text_def placeholders_def strip_def lower_def lower_char_def str_space_def

lemma eval_two:
  "merge_data (\<lambda>v. []) (\<lambda>k. replicate k CHR ''a'') 0
     [PDict [], PInt 7, PList [PStr ''x'', PDict [(''source'', PStr ''b.txt'')]]] =
   Inr ([[(''date'', PStr []), (''vendor'', PStr []), (''amount'', PFloat (FFin 0)),
          (''tax'', PFloat (FFin 0)), (''source'', PStr []), (''record_id'', PStr [])],
         [(''date'', PStr []), (''vendor'', PStr []), (''amount'', PFloat (FFin 0)),
          (''tax'', PFloat (FFin 0)), (''source'', PStr ''b.txt''), (''record_id'', PStr ''a'')]],
        2)"
  by (simp add: eval_simps)

lemma eval_placeholder_0:
  "merge_data (\<lambda>v. []) (\<lambda>k. replicate k CHR ''a'') 0
     [PDict [(''date'', PStr ''Unknown''), (''vendor'', PStr ''N/A'')]] =
   Inr ([[(''date'', PStr []), (''vendor'', PStr []), (''amount'', PFloat (FFin 0)),
          (''tax'', PFloat (FFin 0)), (''source'', PStr []), (''record_id'', PStr [])]], 1)"
  by (simp add: merge_data_single normalize_record_eq dict_get_def safe_float_0
        clean_text_def placeholders_def strip_def lower_def lower_char_def str_space_def)

lemma safe_float_examples:
  "safe_float (PStr ''12.5'') = Inr (FFin (25 / 2))"
  "safe_float (PStr ''abc'') = Inr (FFin 0)"
  "safe_float PNone = Inr (FFin 0)"
  by (simp_all add: safe_float_def is_int_or_float_def float_of_str_12_5 float_of_str_abc)

lemma normalize_record_examples:
  "normalize_record repr tok n [(''amount'', PStr ''12.5'')] =
     Inr ([(''date'', PStr []), (''vendor'', PStr []), (''amount'', PFloat (FFin (25 / 2))),
           (''tax'', PFloat (FFin 0)), (''source'', PStr []), (''record_id'', PStr (tok n))], Suc n)"
  "normalize_record repr tok n [(''amount'', PStr ''abc'')] =
     Inr ([(''date'', PStr []), (''vendor'', PStr []), (''amount'', PFloat (FFin 0)),
           (''tax'', PFloat (FFin 0)), (''source'', PStr []), (''record_id'', PStr (tok n))], Suc n)"
  "normalize_record repr tok n [(''amount'', PNone)] =
     Inr ([(''date'', PStr []), (''vendor'', PStr []), (''amount'', PFloat (FFin 0)),
           (''tax'', PFloat (FFin 0)), (''source'', PStr []), (''record_id'', PStr (tok n))], Suc n)"
  by (simp_all add: normalize_record_eq dict_get_def safe_float_0 safe_float_examples
        clean_text_def placeholders_def strip_def lower_def)

lemma normalize_record_total:
  assumes "\<And>i. dict_get r ''amount'' (PInt 0) = PInt i \<Longrightarrow> float_of_int i \<noteq> Inl OverflowError"
    and "\<And>i. dict_get r ''tax'' (PInt 0) = PInt i \<Longrightarrow> float_of_int i \<noteq> Inl OverflowError"
  shows "\<exists>c. normalize_record repr tok n r = Inr (c, Suc n)"
proof -
  have a: "\<exists>f. safe_float (dict_get r ''amount'' (PInt 0)) = Inr f"
  proof (cases "safe_float (dict_get r ''amount'' (PInt 0))")
    case (Inl e)
    from safe_float_error [OF this] obtain i where
      "e = OverflowError" "dict_get r ''amount'' (PInt 0) = PInt i" by blast
    with Inl assms(1) [of i] show ?thesis
      by (simp add: safe_float_def is_int_or_float_def)
  qed blast
  have t: "\<exists>f. safe_float (dict_get r ''tax'' (PInt 0)) = Inr f"
  proof (cases "safe_float (dict_get r ''tax'' (PInt 0))")
    case (Inl e)
    from safe_float_error [OF this] obtain i where
      "e = OverflowError" "dict_get r ''tax'' (PInt 0) = PInt i" by blast
    with Inl assms(2) [of i] show ?thesis
      by (simp add: safe_float_def is_int_or_float_def)
  qed blast
  from a t show ?thesis
    by (auto simp: normalize_record_eq)
qed

lemma eval_norm:
  "normalize_record (\<lambda>v. []) (\<lambda>k. replicate k CHR ''a'') 0
     [(''date'', PStr '' Unknown ''), (''vendor'', PStr ''ABC Ltd''), (''amount'', PStr ''12.5''),
      (''tax'', PNone), (''source'', PStr ''invoice_001.txt'')] =
   Inr ([(''date'', PStr []), (''vendor'', PStr ''ABC Ltd''), (''amount'', PFloat (FFin (25 / 2))),
         (''tax'', PFloat (FFin 0)), (''source'', PStr ''invoice_001.txt''), (''record_id'', PStr [])], 1)"
  by (simp add: normalize_record_eq dict_get_def safe_float_examples
        clean_text_def placeholders_def strip_def lower_def lower_char_def str_space_def)

lemma eval_scenario:
  "merge_data (\<lambda>v. case v of PFloat (FFin q) \<Rightarrow> if q = 5000 then ''5000.0'' else ''500.0'' | _ \<Rightarrow> [])
     (\<lambda>k. replicate k CHR ''a'') 1
     [PDict [(''date'', PStr ''2024-01-15''), (''vendor'', PStr ''ABC Ltd''),
             (''amount'', PFloat (FFin 5000)), (''tax'', PFloat (FFin 500)),
             (''source'', PStr ''invoice_001.txt'')]] =
   Inr ([[(''date'', PStr ''2024-01-15''), (''vendor'', PStr ''ABC Ltd''),
          (''amount'', PFloat (FFin 5000)), (''tax'', PFloat (FFin 500)),
          (''source'', PStr ''invoice_001.txt''), (''record_id'', PStr ''a'')]], 2)"
  by (simp add: merge_data_single normalize_record_eq dict_get_def safe_float_PFloat
        clean_text_def placeholders_def strip_def lower_def lower_char_def str_space_def
        numeral_2_eq_2)

lemma placeholder_examples:
  "\<exists>recs.
     merge_data repr tok n
       [PDict [(''date'', PStr ''Unknown''), (''vendor'', PStr ''N/A'')],
        PDict [(''date'', PStr ''N/A''), (''vendor'', PStr [])],
        PDict [(''date'', PStr []), (''vendor'', PNone)],
        PDict [(''date'', PNone), (''vendor'', PStr ''   '')],
        PDict [(''date'', PStr ''   ''), (''vendor'', PStr ''unknown'')]] = Inr (recs, n + 5) \<and>
     map (\<lambda>c. dict_get c ''date'' PNone) recs = [PStr [], PStr [], PStr [], PStr [], PStr []] \<and>
     map (\<lambda>c. dict_get c ''vendor'' PNone) recs = [PStr [], PStr [], PStr [], PStr [], PStr []]"
  by (simp add: eval_simps)

subsection \<open>When the merge returns\<close>

lemma normalize_all_total:
  assumes "\<And>r i. r \<in> set rs \<Longrightarrow> dict_get r ''amount'' (PInt 0) = PInt i \<Longrightarrow>
             float_of_int i \<noteq> Inl OverflowError"
    and "\<And>r i. r \<in> set rs \<Longrightarrow> dict_get r ''tax'' (PInt 0) = PInt i \<Longrightarrow>
             float_of_int i \<noteq> Inl OverflowError"
  shows "\<exists>cs. normalize_all repr tok n rs = Inr (cs, n + length rs)"
  using assms
proof (induction rs arbitrary: n)
  case Nil
  show ?case by simp
next
  case (Cons r rs)
  have "\<exists>c. normalize_record repr tok n r = Inr (c, Suc n)"
    by (rule normalize_record_total) (use Cons.prems in auto)
  then obtain c where c: "normalize_record repr tok n r = Inr (c, Suc n)" ..
  have "\<exists>cs. normalize_all repr tok (Suc n) rs = Inr (cs, Suc n + length rs)"
    by (rule Cons.IH) (use Cons.prems in auto)
  then obtain cs where "normalize_all repr tok (Suc n) rs = Inr (cs, Suc n + length rs)" ..
  with c show ?case by simp
qed

lemma merge_data_returns:
  assumes "\<And>r i. r \<in> set (flatten_records results) \<Longrightarrow>
             dict_get r ''amount'' (PInt 0) = PInt i \<Longrightarrow> float_of_int i \<noteq> Inl OverflowError"
    and "\<And>r i. r \<in> set (flatten_records results) \<Longrightarrow>
             dict_get r ''tax'' (PInt 0) = PInt i \<Longrightarrow> float_of_int i \<noteq> Inl OverflowError"
  shows "\<exists>recs. merge_data repr tok n results = Inr (recs, n + length (flatten_records results))"
  unfolding merge_data_eq using assms by (rule normalize_all_total)

subsection \<open>The length of the merged list\<close>

text \<open>
  Claim C2. The list \<open>merge_data\<close> returns has as many records as the input items
  contribute: one for an item that is a mapping, the number of its mapping elements for
  an item that is a list, and none for an item of any other type.
\<close>

theorem merge_data_length:
  assumes "merge_data repr tok n results = Inr (recs, n')"
  shows "length recs =
     (\<Sum>item\<leftarrow>results. case item of PDict d \<Rightarrow> 1
                         | PList elems \<Rightarrow> length (filter is_dict elems)
                         | _ \<Rightarrow> 0)"
proof -
  from assms have "normalize_all repr tok n (flatten_records results) = Inr (recs, n')"
    by (simp add: merge_data_eq)
  then have "length recs = length (flatten_records results)"
    by (simp add: normalize_all_Inr)
  then show ?thesis by (simp add: length_flatten_records)
qed

theorem merge_data_length_witness:
  "length [[(''date'', PStr []), (''vendor'', PStr []), (''amount'', PFloat (FFin 0)),
          (''tax'', PFloat (FFin 0)), (''source'', PStr []), (''record_id'', PStr [])],
         [(''date'', PStr []), (''vendor'', PStr []), (''amount'', PFloat (FFin 0)),
          (''tax'', PFloat (FFin 0)), (''source'', PStr ''b.txt''), (''record_id'', PStr ''a'')]] =
     (\<Sum>item\<leftarrow>[PDict [], PInt 7, PList [PStr ''x'', PDict [(''source'', PStr ''b.txt'')]]].
        case item of PDict d \<Rightarrow> 1
        | PList elems \<Rightarrow> length (filter is_dict elems)
        | _ \<Rightarrow> 0)"
  by (rule merge_data_length [OF eval_two])

subsection \<open>Placeholders\<close>

lemma strip_blank: "list_all str_space s \<Longrightarrow> strip s = []"
proof -
  assume "list_all str_space s"
  then have blank: "dropWhile str_space s = []"
    by (induction s) simp_all
  show ?thesis unfolding strip_def blank by simp
qed

lemma clean_text_placeholder:
  assumes "v = PNone \<or> (\<exists>s. v = PStr s \<and>
             (list_all str_space s \<or> lower (strip s) = ''unknown'' \<or> lower (strip s) = ''n/a''))"
  shows "clean_text repr v = []"
  using assms by (auto simp: clean_text_def placeholders_def strip_blank lower_def)

text \<open>
  Claim C3. A date or vendor that is null, blank (empty or made of white space only), or
  equal to \<^verbatim>\<open>unknown\<close> or \<^verbatim>\<open>n/a\<close> after trimming and case folding becomes the
  empty string in the normalized record, for \<open>normalize_record\<close> and so for
  \<open>merge_data\<close>. A key that is missing reads as the empty string and is covered as well.
\<close>

theorem placeholder_collapse:
  assumes "key = ''date'' \<or> key = ''vendor''"
    and "v = PNone \<or> (\<exists>s. v = PStr s \<and>
           (list_all str_space s \<or> lower (strip s) = ''unknown'' \<or> lower (strip s) = ''n/a''))"
    and "dict_get r key (PStr []) = v"
  shows "(normalize_record repr tok n r = Inr (c, n') \<longrightarrow> dict_get c key PNone = PStr [])
       \<and> (merge_data repr tok n [PDict r] = Inr (recs, n') \<longrightarrow>
            map (\<lambda>c. dict_get c key PNone) recs = [PStr []])"
proof -
  have clean: "clean_text repr (dict_get r key (PStr [])) = []"
    using assms(2,3) by (simp add: clean_text_placeholder)
  have one: "dict_get c key PNone = PStr []" if "normalize_record repr tok n r = Inr (c, n')" for c
    using that assms(1) clean
    by (elim normalize_record_Inr) (auto simp: dict_get_def)
  have two: "map (\<lambda>c. dict_get c key PNone) recs = [PStr []]"
    if "merge_data repr tok n [PDict r] = Inr (recs, n')"
  proof -
    from that obtain c where "normalize_record repr tok n r = Inr (c, n')" "recs = [c]"
      by (auto simp: merge_data_single split: sum.splits prod.splits)
    then show ?thesis using one by simp
  qed
  from one two show ?thesis by blast
qed

theorem placeholder_collapse_witness:
  "map (\<lambda>c. dict_get c ''date'' PNone)
     [[(''date'', PStr []), (''vendor'', PStr []), (''amount'', PFloat (FFin 0)),
       (''tax'', PFloat (FFin 0)), (''source'', PStr []), (''record_id'', PStr [])]] = [PStr []]
   \<and> merge_data (\<lambda>v. []) (\<lambda>k. replicate k CHR ''a'') 0
       [PDict [(''date'', PStr ''Unknown''), (''vendor'', PStr ''N/A'')]] =
     Inr ([[(''date'', PStr []), (''vendor'', PStr []), (''amount'', PFloat (FFin 0)),
            (''tax'', PFloat (FFin 0)), (''source'', PStr []), (''record_id'', PStr [])]], 1)"
proof -
  have k: "''date'' = ''date'' \<or> ''date'' = ''vendor''" by simp
  have v: "PStr ''Unknown'' = PNone \<or> (\<exists>s. PStr ''Unknown'' = PStr s \<and>
           (list_all str_space s \<or> lower (strip s) = ''unknown'' \<or> lower (strip s) = ''n/a''))"
    by (simp add: strip_def lower_def lower_char_def str_space_def)
  have g: "dict_get [(''date'', PStr ''Unknown''), (''vendor'', PStr ''N/A'')] ''date'' (PStr []) = PStr ''Unknown''"
    by (simp add: dict_get_def)
  from placeholder_collapse [OF k v g, of "\<lambda>v. []" "\<lambda>k. replicate k CHR ''a''" 0] eval_placeholder_0
  show ?thesis by blast
qed

subsection \<open>Failure of normalization\<close>

text \<open>
  Claim C4 says that normalization never fails. It does fail: an integer amount whose
  nearest float is not finite makes \<^verbatim>\<open>float(value)\<close> raise \<^verbatim>\<open>OverflowError\<close>, which
  \<open>safe_float\<close> converts outside its \<^verbatim>\<open>try\<close> and does not catch, so
  \<open>normalize_record\<close> and \<open>merge_data\<close> raise too. The three coercions the claim
  names, and normalization of every record without such an integer, are the lemmas
  \<open>safe_float_examples\<close>, \<open>normalize_record_examples\<close> and \<open>normalize_record_total\<close>.
\<close>

theorem normalize_record_overflow:
  "safe_float (PInt (10 ^ 400)) = Inl OverflowError
   \<and> normalize_record repr tok n [(''amount'', PInt (10 ^ 400))] = Inl OverflowError
   \<and> merge_data repr tok n [PDict [(''amount'', PInt (10 ^ 400))]] = Inl OverflowError"
proof -
  define big :: int where "big = 10 ^ 400"
  have "2 ^ 1024 \<le> \<bar>big\<bar>" by (simp add: big_def)
  then have "float_of_int big = Inl OverflowError" by (rule float_of_int_overflow)
  then have s: "safe_float (PInt big) = Inl OverflowError"
    by (simp add: safe_float_def is_int_or_float_def)
  then have r: "normalize_record repr tok n [(''amount'', PInt big)] = Inl OverflowError"
    by (simp add: normalize_record_eq dict_get_def)
  then have "merge_data repr tok n [PDict [(''amount'', PInt big)]] = Inl OverflowError"
    by (simp add: merge_data_single)
  with s r show ?thesis unfolding big_def by (intro conjI)
qed

subsection \<open>Record identifiers\<close>

lemma record_ids_normalize_all:
  assumes "normalize_all repr tok n rs = Inr (cs, n')"
  shows "map (\<lambda>c. dict_get c ''record_id'' PNone) cs = map (\<lambda>k. PStr (tok k)) [n..<n']"
proof -
  from normalize_all_Inr [OF assms] have
    len: "length cs = length rs" and n': "n' = n + length rs" and
    each: "\<forall>i < length rs. normalize_record repr tok (n + i) (rs ! i) = Inr (cs ! i, Suc (n + i))"
    by simp_all
  show ?thesis
  proof (rule nth_equalityI)
    show "length (map (\<lambda>c. dict_get c ''record_id'' PNone) cs) = length (map (\<lambda>k. PStr (tok k)) [n..<n'])"
      using len n' by simp
    fix i assume "i < length (map (\<lambda>c. dict_get c ''record_id'' PNone) cs)"
    then have i: "i < length rs" using len by simp
    with each have "normalize_record repr tok (n + i) (rs ! i) = Inr (cs ! i, Suc (n + i))" by simp
    then have "dict_get (cs ! i) ''record_id'' PNone = PStr (tok (n + i))"
      by (elim normalize_record_Inr) (simp add: dict_get_def)
    then show "map (\<lambda>c. dict_get c ''record_id'' PNone) cs ! i = map (\<lambda>k. PStr (tok k)) [n..<n'] ! i"
      using i len n' by simp
  qed
qed

text \<open>
  Claim C5. When the token generator never repeats a token (\<open>inj tok\<close>), the
  \<open>record_id\<close> values of one batch are pairwise distinct, and so are those of two
  batches together, whatever was drawn between the two calls: every record takes exactly
  one fresh token, and none is used twice.
\<close>

theorem record_ids_distinct:
  assumes "inj tok"
    and "merge_data repr tok n results = Inr (recs, n')"
    and "n' \<le> m"
    and "merge_data repr tok m results' = Inr (recs', m')"
  shows "distinct (map (\<lambda>c. dict_get c ''record_id'' PNone) (recs @ recs'))"
proof -
  have a: "map (\<lambda>c. dict_get c ''record_id'' PNone) recs = map (\<lambda>k. PStr (tok k)) [n..<n']"
    using assms(2) by (simp add: merge_data_eq record_ids_normalize_all)
  have b: "map (\<lambda>c. dict_get c ''record_id'' PNone) recs' = map (\<lambda>k. PStr (tok k)) [m..<m']"
    using assms(4) by (simp add: merge_data_eq record_ids_normalize_all)
  have inj: "inj (\<lambda>k. PStr (tok k))"
    using assms(1) by (auto simp: inj_def)
  have "distinct ([n..<n'] @ [m..<m'])"
    using assms(3) by auto
  then have "distinct (map (\<lambda>k. PStr (tok k)) ([n..<n'] @ [m..<m']))"
    using inj by (simp only: distinct_map) (blast intro: inj_on_subset)
  then show ?thesis using a b by simp
qed

theorem record_ids_distinct_witness:
  "distinct (map (\<lambda>c. dict_get c ''record_id'' PNone)
     ([[(''date'', PStr []), (''vendor'', PStr []), (''amount'', PFloat (FFin 0)),
          (''tax'', PFloat (FFin 0)), (''source'', PStr []), (''record_id'', PStr [])],
         [(''date'', PStr []), (''vendor'', PStr []), (''amount'', PFloat (FFin 0)),
          (''tax'', PFloat (FFin 0)), (''source'', PStr ''b.txt''), (''record_id'', PStr ''a'')]] @
      [[(''date'', PStr []), (''vendor'', PStr []), (''amount'', PFloat (FFin 0)),
          (''tax'', PFloat (FFin 0)), (''source'', PStr []), (''record_id'', PStr ''aa'')]]))"
proof -
  have i: "inj (\<lambda>k. replicate k CHR ''a'')"
    by (rule injI) (metis length_replicate)
  have second: "merge_data (\<lambda>v. []) (\<lambda>k. replicate k CHR ''a'') 2 [PDict []] =
    Inr ([[(''date'', PStr []), (''vendor'', PStr []), (''amount'', PFloat (FFin 0)),
          (''tax'', PFloat (FFin 0)), (''source'', PStr []), (''record_id'', PStr ''aa'')]], 3)"
    by (simp add: eval_simps numeral_2_eq_2 numeral_3_eq_3)
  show ?thesis
    by (rule record_ids_distinct [OF i eval_two _ second]) simp
qed

subsection \<open>Order\<close>

text \<open>
  Claim C6. \<open>merge_data\<close> keeps insertion order: the records of the items \<open>xs\<close>
  precede those of the items \<open>ys\<close> that follow them; inside a list item the records of
  the earlier elements precede those of the later ones; a mapping gives the one record
  that normalizing it gives; and the mixed input of the spec yields exactly three records
  with the dates x, y, z in that order.
\<close>

theorem merge_data_order:
  "(merge_data repr tok n (xs @ ys) = Inr (recs, n') \<longrightarrow>
      (\<exists>r1 n1 r2. merge_data repr tok n xs = Inr (r1, n1) \<and>
                   merge_data repr tok n1 ys = Inr (r2, n') \<and> recs = r1 @ r2))
   \<and> (merge_data repr tok n [PList (elems @ elems')] = Inr (recs, n') \<longrightarrow>
      (\<exists>r1 n1 r2. merge_data repr tok n [PList elems] = Inr (r1, n1) \<and>
                   merge_data repr tok n1 [PList elems'] = Inr (r2, n') \<and> recs = r1 @ r2))
   \<and> (merge_data repr tok n [PList [PDict d]] = merge_data repr tok n [PDict d])
   \<and> (merge_data repr tok n [PDict d] = Inr (recs, n') \<longrightarrow>
      (\<exists>c. normalize_record repr tok n d = Inr (c, n') \<and> recs = [c]))
   \<and> (\<exists>rx ry rz.
        merge_data repr tok n
          [PDict [(''date'', PStr ''x'')],
           PList [PDict [(''date'', PStr ''y'')], PDict [(''date'', PStr ''z'')]]] =
          Inr ([rx, ry, rz], n + 3) \<and>
        map (\<lambda>c. dict_get c ''date'' PNone) [rx, ry, rz] = [PStr ''x'', PStr ''y'', PStr ''z''])"
proof (intro conjI impI)
  assume "merge_data repr tok n (xs @ ys) = Inr (recs, n')"
  then show "\<exists>r1 n1 r2. merge_data repr tok n xs = Inr (r1, n1) \<and>
                   merge_data repr tok n1 ys = Inr (r2, n') \<and> recs = r1 @ r2"
    by (simp add: merge_data_eq flatten_records_append normalize_all_append)
next
  assume "merge_data repr tok n [PList (elems @ elems')] = Inr (recs, n')"
  then show "\<exists>r1 n1 r2. merge_data repr tok n [PList elems] = Inr (r1, n1) \<and>
                   merge_data repr tok n1 [PList elems'] = Inr (r2, n') \<and> recs = r1 @ r2"
    by (simp add: merge_data_eq flatten_records_Cons flatten_records_Nil flatten_inner_append
          normalize_all_append)
next
  show "merge_data repr tok n [PList [PDict d]] = merge_data repr tok n [PDict d]"
    by (simp add: merge_data_eq flatten_records_def)
next
  assume "merge_data repr tok n [PDict d] = Inr (recs, n')"
  then show "\<exists>c. normalize_record repr tok n d = Inr (c, n') \<and> recs = [c]"
    by (auto simp: merge_data_single split: sum.splits prod.splits)
next
  show "\<exists>rx ry rz.
        merge_data repr tok n
          [PDict [(''date'', PStr ''x'')],
           PList [PDict [(''date'', PStr ''y'')], PDict [(''date'', PStr ''z'')]]] =
          Inr ([rx, ry, rz], n + 3) \<and>
        map (\<lambda>c. dict_get c ''date'' PNone) [rx, ry, rz] = [PStr ''x'', PStr ''y'', PStr ''z'']"
    by (simp add: eval_simps)
qed

theorem merge_data_order_witness:
  "\<exists>r1 n1 r2.
     merge_data (\<lambda>v. []) (\<lambda>k. replicate k CHR ''a'') 0 [PDict []] = Inr (r1, n1) \<and>
     merge_data (\<lambda>v. []) (\<lambda>k. replicate k CHR ''a'') n1
       [PInt 7, PList [PStr ''x'', PDict [(''source'', PStr ''b.txt'')]]] = Inr (r2, 2) \<and>
     [[(''date'', PStr []), (''vendor'', PStr []), (''amount'', PFloat (FFin 0)),
       (''tax'', PFloat (FFin 0)), (''source'', PStr []), (''record_id'', PStr [])],
      [(''date'', PStr []), (''vendor'', PStr []), (''amount'', PFloat (FFin 0)),
       (''tax'', PFloat (FFin 0)), (''source'', PStr ''b.txt''), (''record_id'', PStr ''a'')]] = r1 @ r2"
proof -
  have "merge_data (\<lambda>v. []) (\<lambda>k. replicate k CHR ''a'') 0
     ([PDict []] @ [PInt 7, PList [PStr ''x'', PDict [(''source'', PStr ''b.txt'')]]]) =
   Inr ([[(''date'', PStr []), (''vendor'', PStr []), (''amount'', PFloat (FFin 0)),
          (''tax'', PFloat (FFin 0)), (''source'', PStr []), (''record_id'', PStr [])],
         [(''date'', PStr []), (''vendor'', PStr []), (''amount'', PFloat (FFin 0)),
          (''tax'', PFloat (FFin 0)), (''source'', PStr ''b.txt''), (''record_id'', PStr ''a'')]],
        2)"
    using eval_two by simp
  from merge_data_order [THEN conjunct1, rule_format, OF this] show ?thesis .
qed

subsection \<open>The summary\<close>

lemma merge_data_detailed_error:
  "merge_data repr tok n results = Inl e \<Longrightarrow> merge_data_detailed repr tok n results = Inl e"
  by (simp add: merge_data_detailed_def)



subsection \<open>Idempotence\<close>

lemma dict_get_dict_set_other:
  "k' \<noteq> k \<Longrightarrow> dict_get (dict_set d k v) k' dflt = dict_get d k' dflt"
  by (induction d) (auto simp: dict_get_def)

lemma dict_get_dict_set_same: "dict_get (dict_set d k v) k dflt = v"
  by (induction d) (auto simp: dict_get_def)

text \<open>
  Claim C8. Normalizing a record that a previous normalization produced returns the same
  record with only \<open>record_id\<close> replaced by a new token: date, vendor, amount, tax and
  source are fixed points.
\<close>

theorem normalize_record_idempotent:
  assumes "normalize_record repr tok n r = Inr (c, n')"
  shows "normalize_record repr tok m c = Inr (dict_set c ''record_id'' (PStr (tok m)), Suc m)
       \<and> (\<forall>key \<in> set [''date'', ''vendor'', ''amount'', ''tax'', ''source''].
            dict_get (dict_set c ''record_id'' (PStr (tok m))) key PNone = dict_get c key PNone)
       \<and> dict_get (dict_set c ''record_id'' (PStr (tok m))) ''record_id'' PNone = PStr (tok m)"
proof (intro conjI)
  show "normalize_record repr tok m c = Inr (dict_set c ''record_id'' (PStr (tok m)), Suc m)"
    using assms
    by (elim normalize_record_Inr)
       (simp add: normalize_record_eq dict_get_def safe_float_PFloat clean_text_idem)
  show "\<forall>key \<in> set [''date'', ''vendor'', ''amount'', ''tax'', ''source''].
            dict_get (dict_set c ''record_id'' (PStr (tok m))) key PNone = dict_get c key PNone"
    by (auto simp: dict_get_dict_set_other)
  show "dict_get (dict_set c ''record_id'' (PStr (tok m))) ''record_id'' PNone = PStr (tok m)"
    by (rule dict_get_dict_set_same)
qed

theorem normalize_record_idempotent_witness:
  "normalize_record (\<lambda>v. []) (\<lambda>k. replicate k CHR ''a'') 2
     [(''date'', PStr []), (''vendor'', PStr ''ABC Ltd''), (''amount'', PFloat (FFin (25 / 2))),
      (''tax'', PFloat (FFin 0)), (''source'', PStr ''invoice_001.txt''), (''record_id'', PStr [])] =
   Inr ([(''date'', PStr []), (''vendor'', PStr ''ABC Ltd''), (''amount'', PFloat (FFin (25 / 2))),
         (''tax'', PFloat (FFin 0)), (''source'', PStr ''invoice_001.txt''), (''record_id'', PStr ''aa'')], 3)"
  using normalize_record_idempotent [OF eval_norm, of 2, THEN conjunct1]
  by (simp add: numeral_2_eq_2 numeral_3_eq_3)

section \<open>Properties of the serializer\<close>

lemma normalized_columns:
  assumes "normalize_record repr tok n r = Inr (c, n')"
  shows "map fst c = CANONICAL_COLUMNS"
    and "map (\<lambda>k. cell (dict_get c k PNone)) CANONICAL_COLUMNS = map (\<lambda>(k, v). cell v) c"
  using assms
  by (elim normalize_record_Inr; simp add: CANONICAL_COLUMNS_def dict_get_def)+

lemma normalize_all_columns:
  assumes "normalize_all repr tok n rs = Inr (cs, n')" and "c \<in> set cs"
  shows "map fst c = CANONICAL_COLUMNS"
    and "map (\<lambda>k. cell (dict_get c k PNone)) CANONICAL_COLUMNS = map (\<lambda>(k, v). cell v) c"
proof -
  from assms(2) obtain i where i: "i < length cs" "c = cs ! i"
    by (auto simp: in_set_conv_nth)
  with normalize_all_Inr [OF assms(1)] have
    "normalize_record repr tok (n + i) (rs ! i) = Inr (c, Suc (n + i))" by simp
  then show "map fst c = CANONICAL_COLUMNS"
    and "map (\<lambda>k. cell (dict_get c k PNone)) CANONICAL_COLUMNS = map (\<lambda>(k, v). cell v) c"
    by (rule normalized_columns)+
qed

text \<open>
  Claim C9. For a non-empty sequence of records that \<open>merge_data\<close> returned, the table
  written by \<open>create_csv\<close> is one header row with the columns date, vendor, amount,
  tax, source, record_id in this order, followed by exactly one data row per record, in
  the order of the records, holding the texts of its six values, and nothing else; one
  record gives two rows.
\<close>

theorem create_csv_canonical:
  assumes "merge_data repr tok n results = Inr (recs, n')" and "recs \<noteq> []"
  shows "create_csv cell recs path files path =
           Some ([''date'', ''vendor'', ''amount'', ''tax'', ''source'', ''record_id''] #
                 map (\<lambda>r. map (\<lambda>(k, v). cell v) r) recs)
       \<and> length (csv_table cell recs) = Suc (length recs)"
proof -
  from assms(1) have norm: "normalize_all repr tok n (flatten_records results) = Inr (recs, n')"
    by (simp add: merge_data_eq)
  from assms(2) obtain r rest where recs: "recs = r # rest" by (cases recs) auto
  have cols: "csv_columns recs = CANONICAL_COLUMNS"
    using normalize_all_columns(1) [OF norm, of r] recs by (simp add: csv_columns_def)
  have rows: "map (\<lambda>r. map (\<lambda>k. cell (dict_get r k PNone)) CANONICAL_COLUMNS) recs =
              map (\<lambda>r. map (\<lambda>(k, v). cell v) r) recs"
    by (intro map_cong refl normalize_all_columns(2) [OF norm])
  show ?thesis
    using rows by (simp add: create_csv_def csv_table_def cols CANONICAL_COLUMNS_def)
qed

theorem create_csv_canonical_witness:
  "create_csv
     (py_str (\<lambda>v. case v of PFloat (FFin q) \<Rightarrow> if q = 5000 then ''5000.0'' else ''500.0'' | _ \<Rightarrow> []))
     [[(''date'', PStr ''2024-01-15''), (''vendor'', PStr ''ABC Ltd''),
       (''amount'', PFloat (FFin 5000)), (''tax'', PFloat (FFin 500)),
       (''source'', PStr ''invoice_001.txt''), (''record_id'', PStr ''a'')]]
     ''output.csv'' Map.empty ''output.csv'' =
   Some [[''date'', ''vendor'', ''amount'', ''tax'', ''source'', ''record_id''],
         [''2024-01-15'', ''ABC Ltd'', ''5000.0'', ''500.0'', ''invoice_001.txt'', ''a'']]"
proof -
  have "[[(''date'', PStr ''2024-01-15''), (''vendor'', PStr ''ABC Ltd''),
       (''amount'', PFloat (FFin 5000)), (''tax'', PFloat (FFin 500)),
       (''source'', PStr ''invoice_001.txt''), (''record_id'', PStr ''a'')]] \<noteq> []"
    by simp
  from create_csv_canonical [OF eval_scenario this, THEN conjunct1] show ?thesis
    by simp
qed

end
